theory Spec2Isabelle
  imports Complex_Main "HOL-Library.Multiset"
begin

section \<open>Strings\<close>

text \<open>
  Python's \<open>str\<close> is a sequence of code points. The model uses \<open>string\<close> (a list of
  \<open>char\<close>), reading each \<open>char\<close> as the code point of the same number, so it covers the
  code points 0 to 255 (ASCII and Latin-1). The character classes below are Python's
  \<open>str.isspace\<close>, \<open>str.isdigit\<close>, \<open>str.lower\<close> and the regular-expression class
  \<open>\d\<close> on that range.
\<close>

definition LF :: char where
  "LF = CHR 0x0A"

definition CR :: char where
  "CR = CHR 0x0D"

definition BACKSLASH :: char where
  "BACKSLASH = CHR 0x5C"

definition isspace :: "char \<Rightarrow> bool" where
  \<comment> \<open>\<open>str.isspace\<close> and the class \<open>\s\<close>: TAB to CR, FS to US, space, NEL, NBSP\<close>
  "isspace c = (let n = (of_char c :: nat) in
     (9 \<le> n \<and> n \<le> 13) \<or> (28 \<le> n \<and> n \<le> 32) \<or> n = 133 \<or> n = 160)"

definition isupper :: "char \<Rightarrow> bool" where
  \<comment> \<open>the code points with a lowercase mapping: A to Z, and Latin-1 0xC0 to 0xDE except 0xD7\<close>
  "isupper c = (let n = (of_char c :: nat) in
     (65 \<le> n \<and> n \<le> 90) \<or> (192 \<le> n \<and> n \<le> 214) \<or> (216 \<le> n \<and> n \<le> 222))"

definition lower_char :: "char \<Rightarrow> char" where
  "lower_char c = (if isupper c then char_of (of_char c + 32 :: nat) else c)"

definition lower :: "string \<Rightarrow> string" where
  \<comment> \<open>\<open>str.lower()\<close>\<close>
  "lower s = map lower_char s"

definition replace :: "char \<Rightarrow> char \<Rightarrow> string \<Rightarrow> string" where
  \<comment> \<open>\<open>t.replace(old, new)\<close> for one-character \<open>old\<close> and \<open>new\<close>\<close>
  "replace old new t = map (\<lambda>c. if c = old then new else c) t"

function split :: "string \<Rightarrow> string list" where
  \<comment> \<open>\<open>t.split()\<close>: the maximal runs of non-whitespace characters, in order\<close>
  "split [] = []"
| "split (c # cs) =
     (if isspace c then split cs
      else (c # takeWhile (\<lambda>x. \<not> isspace x) cs) # split (dropWhile (\<lambda>x. \<not> isspace x) cs))"
  by pat_completeness auto
termination
  by (relation "measure length") (auto simp: length_dropWhile_le less_Suc_eq_le)

fun join :: "string \<Rightarrow> string list \<Rightarrow> string" where
  \<comment> \<open>\<open>sep.join(ws)\<close>\<close>
  "join sep [] = []"
| "join sep [w] = w"
| "join sep (w # v # ws) = w @ sep @ join sep (v # ws)"

definition lstrip :: "string \<Rightarrow> string" where
  "lstrip s = dropWhile isspace s"

definition rstrip :: "string \<Rightarrow> string" where
  "rstrip s = rev (dropWhile isspace (rev s))"

definition strip :: "string \<Rightarrow> string" where
  \<comment> \<open>\<open>s.strip()\<close>: whitespace removed at both ends\<close>
  "strip s = rstrip (lstrip s)"

section \<open>Filename normalizer (subsbatch.py, \<open>normalize_stem\<close>)\<close>

definition separators :: "char list" where
  "separators = [CHR ''_'', CHR ''.'', CHR ''-'', CHR ''('', CHR '')'', CHR ''['', CHR '']'']"

definition normalize_stem :: "string \<Rightarrow> string" where
  "normalize_stem stem0 =
     (let t = lower stem0;
          t = fold (\<lambda>ch t. replace ch (CHR '' '') t) separators t
      in strip (join '' '' (split t)))"

subsection \<open>The normalizer as the specification words it\<close>

definition is_separator :: "char \<Rightarrow> bool" where
  "is_separator c = (c \<in> set separators)"

function collapse_ws :: "string \<Rightarrow> string" where
  \<comment> \<open>every maximal run of whitespace becomes one space\<close>
  "collapse_ws [] = []"
| "collapse_ws (c # cs) =
     (if isspace c then CHR '' '' # collapse_ws (dropWhile isspace cs)
      else c # collapse_ws cs)"
  by pat_completeness auto
termination
  by (relation "measure length") (auto simp: length_dropWhile_le less_Suc_eq_le)

definition normalize_spec :: "string \<Rightarrow> string" where
  "normalize_spec x =
     strip (collapse_ws (map (\<lambda>c. if is_separator c then CHR '' '' else c) (lower x)))"


section \<open>Paths (\<open>pathlib.Path\<close>)\<close>

text \<open>
  A path is its directory components and its final component. \<open>suffix\<close>, \<open>stem\<close>
  and \<open>with_suffix\<close> follow \<open>pathlib.PurePath\<close>: the suffix starts at the last dot of
  the name, unless that dot is the first or the last character of the name.
\<close>

record path =
  parent :: "string list"
  name :: string

datatype error = ValueError | RuntimeError | OSError

definition path_str :: "path \<Rightarrow> string" where
  \<comment> \<open>\<open>str(p)\<close>\<close>
  "path_str p = concat (map (\<lambda>d. ''/'' @ d) (parent p)) @ ''/'' @ name p"

definition joinpath :: "path \<Rightarrow> string \<Rightarrow> path" where
  \<comment> \<open>\<open>p / child\<close>\<close>
  "joinpath p child = \<lparr>parent = parent p @ [name p], name = child\<rparr>"

fun rfind :: "'a \<Rightarrow> 'a list \<Rightarrow> nat option" where
  \<comment> \<open>\<open>s.rfind(c)\<close>: the last index of \<open>c\<close>; \<open>None\<close> is Python's -1\<close>
  "rfind c [] = None"
| "rfind c (x # xs) =
     (case rfind c xs of
        Some i \<Rightarrow> Some (Suc i)
      | None \<Rightarrow> if x = c then Some 0 else None)"

definition suffix :: "path \<Rightarrow> string" where
  "suffix p =
     (case rfind (CHR ''.'') (name p) of
        None \<Rightarrow> []
      | Some i \<Rightarrow> if 0 < i \<and> i < length (name p) - 1 then drop i (name p) else [])"

definition stem :: "path \<Rightarrow> string" where
  "stem p =
     (case rfind (CHR ''.'') (name p) of
        None \<Rightarrow> name p
      | Some i \<Rightarrow> if 0 < i \<and> i < length (name p) - 1 then take i (name p) else name p)"

definition with_suffix :: "path \<Rightarrow> string \<Rightarrow> error + path" where
  "with_suffix p sfx =
     (if CHR ''/'' \<in> set sfx then Inl ValueError
      else if (sfx \<noteq> [] \<and> hd sfx \<noteq> CHR ''.'') \<or> sfx = ''.'' then Inl ValueError
      else if name p = [] then Inl ValueError
      else let old_suffix = suffix p in
        if old_suffix = [] then Inr (p\<lparr>name := name p @ sfx\<rparr>)
        else Inr (p\<lparr>name := take (length (name p) - length old_suffix) (name p) @ sfx\<rparr>))"

section \<open>Matcher (subsbatch.py, \<open>best_media_match\<close>)\<close>

text \<open>
  \<open>difflib.SequenceMatcher(None, a, b).ratio()\<close> is library code: the matcher takes it
  as the parameter \<open>ratio\<close>. Python floats are modelled by the real numbers they
  denote: comparisons of floats are exact, the arithmetic of the score is taken
  without rounding.
\<close>

definition THRESHOLD :: real where
  "THRESHOLD = 0.55"

definition candidate_score :: "(string \<Rightarrow> string \<Rightarrow> real) \<Rightarrow> string \<Rightarrow> path \<Rightarrow> real" where
  \<comment> \<open>the body of the loop of \<open>best_media_match\<close>, up to \<open>score\<close>\<close>
  "candidate_score ratio s m =
     (let ms = normalize_stem (stem m);
          r = ratio s ms;
          length_bias = 1 - (real_of_int \<bar>int (length s) - int (length ms)\<bar> /
                              real (max (length s) (max (length ms) 1))) * 0.1;
          score = r * length_bias
      in score)"

fun match_loop ::
  "(string \<Rightarrow> string \<Rightarrow> real) \<Rightarrow> string \<Rightarrow> path option \<Rightarrow> real \<Rightarrow> path list \<Rightarrow> path option \<times> real"
where
  "match_loop ratio s best best_score [] = (best, best_score)"
| "match_loop ratio s best best_score (m # rest) =
     (let score = candidate_score ratio s m in
      if score > best_score then match_loop ratio s (Some m) score rest
      else match_loop ratio s best best_score rest)"

definition best_media_match ::
  "(string \<Rightarrow> string \<Rightarrow> real) \<Rightarrow> path \<Rightarrow> path list \<Rightarrow> path option"
where
  "best_media_match ratio for_sub media_files =
     (let s = normalize_stem (stem for_sub);
          (best, best_score) = match_loop ratio s None (- 1) media_files
      in if best \<noteq> None \<and> best_score \<ge> THRESHOLD then best else None)"

subsection \<open>The matcher as the specification words it\<close>


definition first_max :: "('a \<Rightarrow> real) \<Rightarrow> 'a list \<Rightarrow> 'a option" where
  \<comment> \<open>the earliest element of the list whose score is the maximum over the list\<close>
  "first_max f xs = find (\<lambda>x. f x = Max (f ` set xs)) xs"


section \<open>The outside world\<close>

text \<open>
  The file system, the external tools and the dialogs are parameters. \<open>'w\<close> is the
  state of the world; \<open>run\<close> is \<open>subprocess.run\<close> reduced to what the programs read
  of it (return code, stdout, stderr) together with the world the command leaves
  behind. What the programs print is not modelled.
\<close>

record 'w env =
  have_tool :: "string \<Rightarrow> bool"
  run :: "string list \<Rightarrow> 'w \<Rightarrow> (int \<times> string \<times> string) \<times> 'w"
  path_exists :: "'w \<Rightarrow> path \<Rightarrow> bool"
  glob_files :: "'w \<Rightarrow> path \<Rightarrow> path list"
  rglob_files :: "'w \<Rightarrow> path \<Rightarrow> path list"
  sequence_ratio :: "string \<Rightarrow> string \<Rightarrow> real"
  read_text :: "'w \<Rightarrow> path \<Rightarrow> string option"
  write_text :: "path \<Rightarrow> string \<Rightarrow> 'w \<Rightarrow> 'w"
  mkdtemp :: "'w \<Rightarrow> path"
  rmtree :: "path \<Rightarrow> 'w \<Rightarrow> 'w"
  import_aeneas :: bool
  executable :: string

section \<open>Batch orchestrator (subsbatch.py, \<open>main\<close>)\<close>

definition MEDIA_EXTS :: "string set" where
  "MEDIA_EXTS = {''.mp4'', ''.mkv'', ''.mov'', ''.avi'', ''.mpg'', ''.mpeg'',
                 ''.mp3'', ''.m4a'', ''.aac'', ''.flac'', ''.wav'', ''.ogg''}"

definition SUB_EXTS :: "string set" where
  "SUB_EXTS = {''.srt''}"

definition gather_files :: "'w env \<Rightarrow> bool \<Rightarrow> 'w \<Rightarrow> path \<Rightarrow> path list" where
  \<comment> \<open>the listings hold regular files only (\<open>p.is_file()\<close>)\<close>
  "gather_files e RECURSIVE w root0 =
     (if RECURSIVE then rglob_files e w root0 else glob_files e w root0)"

fun group_media :: "(string list \<rightharpoonup> path list) \<Rightarrow> path list \<Rightarrow> (string list \<rightharpoonup> path list)" where
  \<comment> \<open>\<open>media_by_dir.setdefault(p.parent, []).append(p)\<close> for every media file\<close>
  "group_media media_by_dir [] = media_by_dir"
| "group_media media_by_dir (p # ps) =
     (if lower (suffix p) \<in> MEDIA_EXTS
      then group_media
             (media_by_dir(parent p \<mapsto>
                (case media_by_dir (parent p) of None \<Rightarrow> [] | Some l \<Rightarrow> l) @ [p])) ps
      else group_media media_by_dir ps)"

text \<open>
  The reasons recorded with a skipped or failed subtitle are the strings \<open>exists\<close>,
  \<open>no media in folder\<close>, \<open>no good match\<close> and \<open>ffsubsync error (code)\<close> of the
  source, as constructors.
\<close>

datatype reason = Exists | No_media_in_folder | No_good_match | Ffsubsync_error int

record 'w batch_state =
  synced :: "(path \<times> path) list"
  skipped :: "(path \<times> reason) list"
  failed :: "(path \<times> reason) list"
  world :: 'w
  invoked :: "string list list"

definition ffsubsync_cmd :: "path \<Rightarrow> path \<Rightarrow> path \<Rightarrow> string list" where
  "ffsubsync_cmd m srt out_srt =
     [''ffsubsync'', path_str m, ''-i'', path_str srt, ''-o'', path_str out_srt]"

definition process_sub ::
  "'w env \<Rightarrow> bool \<Rightarrow> (string list \<rightharpoonup> path list) \<Rightarrow> 'w batch_state \<Rightarrow> path \<Rightarrow> error + 'w batch_state"
where
  \<comment> \<open>one iteration of \<open>for srt in subs\<close>; \<open>Inl\<close> is an exception leaving the loop\<close>
  "process_sub e OVERWRITE media_by_dir st srt =
     (let candidates = (case media_by_dir (parent srt) of None \<Rightarrow> [] | Some l \<Rightarrow> l) in
      if candidates = [] then Inr (st\<lparr>failed := failed st @ [(srt, No_media_in_folder)]\<rparr>)
      else case best_media_match (sequence_ratio e) srt candidates of
        None \<Rightarrow> Inr (st\<lparr>failed := failed st @ [(srt, No_good_match)]\<rparr>)
      | Some m \<Rightarrow>
         (case with_suffix m ''.srt'' of
            Inl err \<Rightarrow> Inl err
          | Inr out_srt \<Rightarrow>
             if path_exists e (world st) out_srt \<and> \<not> OVERWRITE
             then Inr (st\<lparr>skipped := skipped st @ [(srt, Exists)]\<rparr>)
             else
               let cmd = ffsubsync_cmd m srt out_srt;
                   ((code, out, err), w') = run e cmd (world st);
                   st' = st\<lparr>world := w', invoked := invoked st @ [cmd]\<rparr>
               in if code = 0 then Inr (st'\<lparr>synced := synced st' @ [(srt, m)]\<rparr>)
                  else Inr (st'\<lparr>failed := failed st' @ [(srt, Ffsubsync_error code)]\<rparr>)))"

fun process_subs ::
  "'w env \<Rightarrow> bool \<Rightarrow> (string list \<rightharpoonup> path list) \<Rightarrow> 'w batch_state \<Rightarrow> path list \<Rightarrow> error + 'w batch_state"
where
  "process_subs e OVERWRITE media_by_dir st [] = Inr st"
| "process_subs e OVERWRITE media_by_dir st (srt # rest) =
     (case process_sub e OVERWRITE media_by_dir st srt of
        Inl err \<Rightarrow> Inl err
      | Inr st' \<Rightarrow> process_subs e OVERWRITE media_by_dir st' rest)"

datatype 'w outcome = Exit int | Summary "'w batch_state" | Raised error

definition discovered_subs :: "path list \<Rightarrow> path list" where
  "discovered_subs all_files = filter (\<lambda>p. lower (suffix p) \<in> SUB_EXTS) all_files"

definition subsbatch_main ::
  "'w env \<Rightarrow> bool \<Rightarrow> bool \<Rightarrow> path option \<Rightarrow> 'w \<Rightarrow> 'w outcome"
where
  \<comment> \<open>\<open>folder\<close> is the directory picked in the dialog, \<open>None\<close> when it was cancelled\<close>
  "subsbatch_main e RECURSIVE OVERWRITE folder w =
     (if \<not> have_tool e ''ffsubsync'' then Exit 1
      else case folder of
        None \<Rightarrow> Exit 0
      | Some base \<Rightarrow>
         let all_files = gather_files e RECURSIVE w base;
             subs = discovered_subs all_files;
             media_by_dir = group_media Map.empty all_files
         in if subs = [] then Exit 0
            else
              case process_subs e OVERWRITE media_by_dir
                     \<lparr>synced = [], skipped = [], failed = [], world = w, invoked = []\<rparr> subs of
                Inl err \<Rightarrow> Raised err
              | Inr st \<Rightarrow> Summary st)"


section \<open>Single-pair mode (subsynch.py)\<close>

subsection \<open>Stripping an SRT file to plain text (\<open>srt_to_plaintext\<close>)\<close>

function readlines_from :: "string \<Rightarrow> string \<Rightarrow> string list" where
  \<comment> \<open>\<open>for raw in f\<close> on a text file: lines end at LF, CR or CR LF, all read as LF\<close>
  "readlines_from cur [] = (if cur = [] then [] else [cur])"
| "readlines_from cur (c # cs) =
     (if c = LF then (cur @ [LF]) # readlines_from [] cs
      else if c = CR
      then (cur @ [LF]) # readlines_from [] (if cs \<noteq> [] \<and> hd cs = LF then tl cs else cs)
      else readlines_from (cur @ [c]) cs)"
  by pat_completeness auto
termination
  by (relation "measure (\<lambda>(cur, s). length s)") auto

definition readlines :: "string \<Rightarrow> string list" where
  "readlines content = readlines_from [] content"

definition isdigit_char :: "char \<Rightarrow> bool" where
  \<comment> \<open>\<open>str.isdigit\<close>: 0 to 9 and the superscripts 2, 3 and 1 of Latin-1\<close>
  "isdigit_char c = (let n = (of_char c :: nat) in
     (48 \<le> n \<and> n \<le> 57) \<or> n = 178 \<or> n = 179 \<or> n = 185)"

definition isdigit :: "string \<Rightarrow> bool" where
  "isdigit s = (s \<noteq> [] \<and> list_all isdigit_char s)"

definition re_d :: "char \<Rightarrow> bool" where
  \<comment> \<open>the class \<open>\d\<close>: decimal digits\<close>
  "re_d c = (let n = (of_char c :: nat) in 48 \<le> n \<and> n \<le> 57)"

definition ts_match :: "string \<Rightarrow> bool" where
  \<comment> \<open>all of \<open>t\<close> matches \<open>\d{2}:\d{2}:\d{2},\d{3}\<close>\<close>
  "ts_match t =
     (length t = 12 \<and> re_d (t ! 0) \<and> re_d (t ! 1) \<and> t ! 2 = CHR '':'' \<and>
      re_d (t ! 3) \<and> re_d (t ! 4) \<and> t ! 5 = CHR '':'' \<and>
      re_d (t ! 6) \<and> re_d (t ! 7) \<and> t ! 8 = CHR '','' \<and>
      re_d (t ! 9) \<and> re_d (t ! 10) \<and> re_d (t ! 11))"

definition patt_ts_match :: "string \<Rightarrow> bool" where
  \<comment> \<open>\<open>patt_ts.match(line)\<close> is not \<open>None\<close>, for
      \<open>^\d{2}:\d{2}:\d{2},\d{3}\s+-->\s+\d{2}:\d{2}:\d{2},\d{3}$\<close> and a stripped line\<close>
  "patt_ts_match line =
     (let t1 = take 12 line; r1 = drop 12 line;
          s1 = takeWhile isspace r1; r2 = dropWhile isspace r1;
          a = take 3 r2; r3 = drop 3 r2;
          s2 = takeWhile isspace r3; t2 = dropWhile isspace r3
      in ts_match t1 \<and> s1 \<noteq> [] \<and> a = ''-->'' \<and> s2 \<noteq> [] \<and> ts_match t2)"

function sub_tags :: "string \<Rightarrow> string" where
  \<comment> \<open>\<open>re.sub(r"</?[^>]+>", "", line)\<close>: a match starts at a \<open><\<close> that is followed by
      one or more characters other than \<open>>\<close> and then by \<open>>\<close>, and ends at that \<open>>\<close>\<close>
  "sub_tags [] = []"
| "sub_tags (c # cs) =
     (let body = takeWhile (\<lambda>x. x \<noteq> CHR ''>'') cs;
          rest = dropWhile (\<lambda>x. x \<noteq> CHR ''>'') cs
      in if c = CHR ''<'' \<and> body \<noteq> [] \<and> rest \<noteq> [] then sub_tags (tl rest)
         else c # sub_tags cs)"
  by pat_completeness auto
termination
proof (relation "measure length")
  show "wf (measure length)" by simp
next
  fix c :: char and cs body rest :: string
  assume "rest = dropWhile (\<lambda>x. x \<noteq> CHR ''>'') cs"
  then have "length (tl rest) \<le> length cs"
    using length_dropWhile_le [of "\<lambda>x. x \<noteq> CHR ''>''" cs] by simp
  then show "(tl rest, c # cs) \<in> measure length" by simp
next
  fix c :: char and cs :: string
  show "(cs, c # cs) \<in> measure length" by simp
qed

function sub_braces :: "string \<Rightarrow> string" where
  \<comment> \<open>\<open>re.sub(r"\{\\.*?\}", "", line)\<close>: a match starts at a \<open>{\<close> followed by a
      backslash and ends at the first \<open>}\<close> after it, with no line feed in between\<close>
  "sub_braces [] = []"
| "sub_braces (c # cs) =
     (let body = takeWhile (\<lambda>x. x \<noteq> CHR ''}'') (tl cs);
          rest = dropWhile (\<lambda>x. x \<noteq> CHR ''}'') (tl cs)
      in if c = CHR ''{'' \<and> cs \<noteq> [] \<and> hd cs = BACKSLASH \<and> rest \<noteq> [] \<and> LF \<notin> set body
         then sub_braces (tl rest)
         else c # sub_braces cs)"
  by pat_completeness auto
termination
proof (relation "measure length")
  show "wf (measure length)" by simp
next
  fix c :: char and cs body rest :: string
  assume "rest = dropWhile (\<lambda>x. x \<noteq> CHR ''}'') (tl cs)"
  then have "length (tl rest) \<le> length cs"
    using length_dropWhile_le [of "\<lambda>x. x \<noteq> CHR ''}''" "tl cs"] by simp
  then show "(tl rest, c # cs) \<in> measure length" by simp
next
  fix c :: char and cs :: string
  show "(cs, c # cs) \<in> measure length" by simp
qed

fun collect_lines :: "string list \<Rightarrow> string list \<Rightarrow> string list" where
  \<comment> \<open>the loop \<open>for raw in f\<close>, with the list \<open>lines\<close> it appends to\<close>
  "collect_lines lines [] = lines"
| "collect_lines lines (raw # f) =
     (let line = strip raw in
      if line = [] \<or> isdigit line \<or> patt_ts_match line then collect_lines lines f
      else
        let line = sub_tags line;
            line = sub_braces line
        in collect_lines (lines @ [line]) f)"

definition plaintext :: "string \<Rightarrow> string" where
  \<comment> \<open>what \<open>srt_to_plaintext\<close> writes, from the text of the subtitle file\<close>
  "plaintext content = join [LF] (collect_lines [] (readlines content)) @ [LF]"


subsection \<open>The stripped text as the specification words it\<close>




subsection \<open>Aligners and \<open>main\<close>\<close>

type_synonym 'w sstate = "'w \<times> string list list"

definition run_cmd :: "'w env \<Rightarrow> string list \<Rightarrow> 'w sstate \<Rightarrow> (int \<times> string \<times> string) \<times> 'w sstate" where
  \<comment> \<open>\<open>run(cmd)\<close>, with the commands run so far kept beside the world\<close>
  "run_cmd e cmd st = (let (res, w') = run e cmd (fst st) in (res, (w', snd st @ [cmd])))"

definition pick_media_and_subs :: "path option \<Rightarrow> path option \<Rightarrow> int + path \<times> path" where
  \<comment> \<open>the two dialogs; \<open>None\<close> is a cancelled dialog, \<open>Inl\<close> the exit status\<close>
  "pick_media_and_subs media subs =
     (case media of
        None \<Rightarrow> Inl 0
      | Some m \<Rightarrow> (case subs of None \<Rightarrow> Inl 0 | Some s \<Rightarrow> Inr (m, s)))"

definition align_with_ffsubsync ::
  "'w env \<Rightarrow> path \<Rightarrow> path \<Rightarrow> path \<Rightarrow> 'w sstate \<Rightarrow> (error + unit) \<times> 'w sstate"
where
  "align_with_ffsubsync e media subs out_srt st =
     (let cmd = [''ffsubsync'', path_str media, ''-i'', path_str subs, ''-o'', path_str out_srt];
          ((code, out, err), st') = run_cmd e cmd st
      in if code \<noteq> 0 then (Inl RuntimeError, st') else (Inr (), st'))"

definition srt_to_plaintext ::
  "'w env \<Rightarrow> path \<Rightarrow> path \<Rightarrow> 'w sstate \<Rightarrow> (error + path) \<times> 'w sstate"
where
  "srt_to_plaintext e srt_path out_txt st =
     (case read_text e (fst st) srt_path of
        None \<Rightarrow> (Inl OSError, st)
      | Some content \<Rightarrow>
          (Inr out_txt, (write_text e out_txt (plaintext content) (fst st), snd st)))"

definition ffmpeg_cmd :: "path \<Rightarrow> path \<Rightarrow> string list" where
  "ffmpeg_cmd media wav =
     [''ffmpeg'', ''-hide_banner'', ''-nostdin'', ''-y'',
      ''-i'', path_str media,
      ''-vn'', ''-ac'', ''1'', ''-ar'', ''16000'', ''-c:a'', ''pcm_s16le'',
      ''-map_metadata'', ''-1'', ''-fflags'', ''+bitexact'', ''-flags'', ''+bitexact'',
      ''-f'', ''wav'', path_str wav]"

definition aeneas_cmd :: "'w env \<Rightarrow> path \<Rightarrow> path \<Rightarrow> path \<Rightarrow> string list" where
  "aeneas_cmd e wav text out_srt =
     (let config = ''task_language=eng|is_text_type=plain|os_task_file_format=srt'';
          rconf = ''ffmpeg_sample_rate=16000''
      in [executable e, ''-m'', ''aeneas.tools.execute_task'', ''-v'',
          path_str wav, path_str text, config, path_str out_srt, ''-r'', rconf])"

definition aeneas_steps ::
  "'w env \<Rightarrow> path \<Rightarrow> path \<Rightarrow> path \<Rightarrow> path \<Rightarrow> 'w sstate \<Rightarrow> (error + unit) \<times> 'w sstate"
where
  \<comment> \<open>the body of \<open>with tempfile.TemporaryDirectory() as td\<close>\<close>
  "aeneas_steps e td media subs out_srt st =
     (case srt_to_plaintext e subs (joinpath td ''text.txt'') st of
        (Inl err, st1) \<Rightarrow> (Inl err, st1)
      | (Inr text, st1) \<Rightarrow>
          if \<not> have_tool e ''ffmpeg'' \<or> \<not> have_tool e ''ffprobe'' then (Inl RuntimeError, st1)
          else
            let wav = joinpath td ''audio.wav'';
                ((code, out, err), st2) = run_cmd e (ffmpeg_cmd media wav) st1
            in if code \<noteq> 0 then (Inl RuntimeError, st2)
               else
                 let ((code, out, err), st3) = run_cmd e (aeneas_cmd e wav text out_srt) st2
                 in if code \<noteq> 0 then (Inl RuntimeError, st3) else (Inr (), st3))"

definition maybe_align_with_aeneas ::
  "'w env \<Rightarrow> path \<Rightarrow> path \<Rightarrow> path \<Rightarrow> 'w sstate \<Rightarrow> (error + unit) \<times> 'w sstate"
where
  \<comment> \<open>the temporary directory is removed on every way out\<close>
  "maybe_align_with_aeneas e media subs out_srt st =
     (let td = mkdtemp e (fst st);
          (r, st') = aeneas_steps e td media subs out_srt st
      in (r, (rmtree e td (fst st'), snd st')))"

datatype 'w single_outcome =
    Cancelled int
  | Done_ffsubsync path "'w sstate"
  | Done_aeneas path "'w sstate"
  | Neither_available "'w sstate"
  | Fallback_failed "'w sstate"
  | Uncaught error

definition aeneas_fallback ::
  "'w env \<Rightarrow> path \<Rightarrow> path \<Rightarrow> path \<Rightarrow> 'w sstate \<Rightarrow> 'w single_outcome"
where
  \<comment> \<open>the second \<open>try\<close> of \<open>main\<close>\<close>
  "aeneas_fallback e media subs out_srt st =
     (if \<not> import_aeneas e then Neither_available st
      else case maybe_align_with_aeneas e media subs out_srt st of
        (Inr u, st') \<Rightarrow> Done_aeneas out_srt st'
      | (Inl err, st') \<Rightarrow> Fallback_failed st')"

definition subsynch_main :: "'w env \<Rightarrow> path option \<Rightarrow> path option \<Rightarrow> 'w \<Rightarrow> 'w single_outcome" where
  "subsynch_main e media_pick subs_pick w =
     (case pick_media_and_subs media_pick subs_pick of
        Inl status \<Rightarrow> Cancelled status
      | Inr (media, subs) \<Rightarrow>
         (case with_suffix media ''.srt'' of
            Inl err \<Rightarrow> Uncaught err
          | Inr out_srt \<Rightarrow>
             if have_tool e ''ffsubsync''
             then (case align_with_ffsubsync e media subs out_srt (w, []) of
                     (Inr u, st) \<Rightarrow> Done_ffsubsync out_srt st
                   | (Inl err, st) \<Rightarrow> aeneas_fallback e media subs out_srt st)
             else aeneas_fallback e media subs out_srt (w, [])))"


section \<open>A sample library\<close>

text \<open>
  A small library on which the theorems below are instantiated: five subtitles, three
  media files and a text file in two folders. The aligner stub fails on \<open>bad.avi\<close>,
  the media of the first subtitle, and leaves the file system as it is; the similarity stub is 1 on equal strings and 0
  otherwise. The world is the list of existing files.
\<close>

definition sample_base :: path where
  "sample_base = \<lparr>parent = [], name = ''lib''\<rparr>"

definition in_v :: "string \<Rightarrow> path" where
  "in_v n = \<lparr>parent = [''lib'', ''v''], name = n\<rparr>"

definition sample_world :: "path list" where
  "sample_world =
     [in_v ''Bad.srt'', in_v ''bad.avi'', in_v ''other.srt'',
      \<lparr>parent = [''lib'', ''x''], name = ''lone.srt''\<rparr>,
      in_v ''Talk-1.srt'', in_v ''talk_1.mkv'', in_v ''clip.srt'', in_v ''clip.mp4'',
      in_v ''notes.txt'']"

definition sample_env :: "(path list) env" where
  "sample_env =
     \<lparr>have_tool = (\<lambda>t. True),
      run = (\<lambda>cmd w. ((if cmd ! 1 = ''/lib/v/bad.avi'' then 2 else 0, [], []), w)),
      path_exists = (\<lambda>w p. p \<in> set w),
      glob_files = (\<lambda>w b. filter (\<lambda>p. parent p = parent b @ [name b]) w),
      rglob_files = (\<lambda>w b. w),
      sequence_ratio = (\<lambda>a b. if a = b then 1 else 0),
      read_text = (\<lambda>w p. if p \<in> set w then Some [] else None),
      write_text = (\<lambda>p t w. w),
      mkdtemp = (\<lambda>w. \<lparr>parent = [''tmp''], name = ''td''\<rparr>),
      rmtree = (\<lambda>p w. w),
      import_aeneas = True,
      executable = ''python3''\<rparr>"


section \<open>Auxiliary notions of the proofs\<close>



definition wordsp :: "string list \<Rightarrow> bool" where
  \<comment> \<open>a list of non-empty words without whitespace, as \<open>split\<close> returns\<close>
  "wordsp ws = (\<forall>w \<in> set ws. w \<noteq> [] \<and> (\<forall>c \<in> set w. \<not> isspace c))"

definition media_ok :: "(string list \<rightharpoonup> path list) \<Rightarrow> bool" where
  \<comment> \<open>every grouped file has a media extension and is filed under its own directory\<close>
  "media_ok media_by_dir =
     (\<forall>d l. media_by_dir d = Some l \<longrightarrow>
        (\<forall>p \<in> set l. lower (suffix p) \<in> MEDIA_EXTS \<and> parent p = d))"

definition outcome_subs :: "'w batch_state \<Rightarrow> path multiset" where
  \<comment> \<open>the subtitles recorded in the three outcome lists, with multiplicity\<close>
  "outcome_subs st =
     mset (map fst (synced st)) + mset (map fst (skipped st)) + mset (map fst (failed st))"

definition synced_ok :: "'w batch_state \<Rightarrow> bool" where
  \<comment> \<open>every synced pair was aligned by a command that writes beside the matched media\<close>
  "synced_ok st =
     (\<forall>(srt, m) \<in> set (synced st).
        name m \<noteq> [] \<and> parent m = parent srt \<and>
        ffsubsync_cmd m srt (m\<lparr>name := stem m @ ''.srt''\<rparr>) \<in> set (invoked st))"

section \<open>Properties of the normalizer\<close>
lemma isspace_space [simp]: "isspace (CHR '' '')"
  by (simp add: isspace_def)


lemma wordsp_simps [simp]:
  "wordsp []"
  "wordsp (w # ws) = (w \<noteq> [] \<and> (\<forall>c \<in> set w. \<not> isspace c) \<and> wordsp ws)"
  by (auto simp: wordsp_def)

lemma split_words: "wordsp (split t)"
  by (induction t rule: split.induct) (auto dest: set_takeWhileD)

lemma set_split: "w \<in> set (split t) \<Longrightarrow> set w \<subseteq> set t"
proof (induction t arbitrary: w rule: split.induct)
  case 1
  then show ?case by simp
next
  case (2 c cs)
  then show ?case
    by (auto split: if_splits dest!: set_takeWhileD set_dropWhileD)
qed

lemma lstrip_id: "s = [] \<or> \<not> isspace (hd s) \<Longrightarrow> lstrip s = s"
  by (cases s) (auto simp: lstrip_def)

lemma rstrip_id: "s = [] \<or> \<not> isspace (last s) \<Longrightarrow> rstrip s = s"
  by (cases s rule: rev_cases) (auto simp: rstrip_def)

lemma join_words_ends:
  "wordsp ws \<Longrightarrow> ws \<noteq> [] \<Longrightarrow>
   join '' '' ws \<noteq> [] \<and> \<not> isspace (hd (join '' '' ws)) \<and> \<not> isspace (last (join '' '' ws))"
proof (induction "'' ''" ws rule: join.induct)
  case 1
  then show ?case by simp
next
  case (2 w)
  then show ?case by (cases w) (auto simp: last_in_set)
next
  case (3 w v ws)
  then show ?case by (cases w) auto
qed

lemma strip_join_words: "wordsp ws \<Longrightarrow> strip (join '' '' ws) = join '' '' ws"
  using join_words_ends [of ws] by (cases "ws = []") (auto simp: strip_def lstrip_id rstrip_id)

lemma split_word_append:
  "w \<noteq> [] \<Longrightarrow> \<forall>c \<in> set w. \<not> isspace c \<Longrightarrow> r = [] \<or> isspace (hd r) \<Longrightarrow>
   split (w @ r) = w # split r"
proof (cases w)
  case Nil
  assume "w \<noteq> []"
  with Nil show ?thesis by simp
next
  case (Cons c cs)
  assume a: "\<forall>c \<in> set w. \<not> isspace c" "r = [] \<or> isspace (hd r)"
  have t: "takeWhile (\<lambda>x. \<not> isspace x) (cs @ r) = cs"
    using a Cons by (cases r) (auto simp: takeWhile_append)
  have d: "dropWhile (\<lambda>x. \<not> isspace x) (cs @ r) = r"
    using a Cons by (cases r) (auto simp: dropWhile_append)
  show ?thesis using a Cons t d by simp
qed

lemma split_join_words: "wordsp ws \<Longrightarrow> split (join '' '' ws) = ws"
proof (induction "'' ''" ws rule: join.induct)
  case 1
  then show ?case by simp
next
  case (2 w)
  then show ?case using split_word_append [of w "[]"] by simp
next
  case (3 w v ws)
  then show ?case using split_word_append [of w "'' '' @ join '' '' (v # ws)"] by simp
qed


lemma collapse_word_append:
  "\<forall>c \<in> set w. \<not> isspace c \<Longrightarrow> collapse_ws (w @ r) = w @ collapse_ws r"
  by (induction w) auto

lemma rstrip_word_append:
  "w \<noteq> [] \<Longrightarrow> \<forall>c \<in> set w. \<not> isspace c \<Longrightarrow> rstrip (w @ u) = w @ rstrip u"
  by (cases w rule: rev_cases) (auto simp: rstrip_def dropWhile_append)

lemma rstrip_space_Cons:
  "isspace c \<Longrightarrow> rstrip (c # v) = (if rstrip v = [] then [] else c # rstrip v)"
  by (auto simp: rstrip_def dropWhile_append)

lemma strip_space_Cons: "isspace c \<Longrightarrow> strip (c # v) = strip v"
  by (simp add: strip_def lstrip_def)

lemma collapse_head: "collapse_ws (dropWhile isspace cs) = [] \<or> \<not> isspace (hd (collapse_ws (dropWhile isspace cs)))"
  by (induction cs) auto

lemma strip_collapse_dropWhile:
  "strip (collapse_ws (dropWhile isspace cs)) = strip (collapse_ws cs)"
  by (cases cs) (auto simp: strip_space_Cons)

lemma join_Nil_iff: "wordsp ws \<Longrightarrow> (join '' '' ws = []) = (ws = [])"
  using join_words_ends [of ws] by auto

lemma join_Cons: "join sep (w # ws) = (if ws = [] then w else w @ sep @ join sep ws)"
  by (cases ws) auto

lemma strip_collapse: "strip (collapse_ws t) = join '' '' (split t)"
proof (induction t rule: split.induct)
  case 1
  show ?case by (simp add: strip_def lstrip_def rstrip_def)
next
  case (2 c cs)
  show ?case
  proof (cases "isspace c")
    case True
    with 2 show ?thesis by (simp add: strip_space_Cons strip_collapse_dropWhile)
  next
    case False
    define w where "w = c # takeWhile (\<lambda>x. \<not> isspace x) cs"
    define r where "r = dropWhile (\<lambda>x. \<not> isspace x) cs"
    have w: "w \<noteq> []" "\<forall>c \<in> set w. \<not> isspace c"
      using False by (auto simp: w_def dest: set_takeWhileD)
    have ccs: "c # cs = w @ r" by (simp add: w_def r_def)
    have r: "r = [] \<or> isspace (hd r)"
      unfolding r_def using hd_dropWhile [of "\<lambda>x. \<not> isspace x" cs] by auto
    have IH: "strip (collapse_ws r) = join '' '' (split r)"
      using 2(2) False by (simp add: r_def)
    have sp: "split (c # cs) = w # split r"
      using False by (simp add: w_def r_def)
    have l: "strip (collapse_ws (c # cs)) = w @ rstrip (collapse_ws r)"
      unfolding ccs collapse_word_append [OF w(2)]
    proof -
      have "lstrip (w @ collapse_ws r) = w @ collapse_ws r"
        using w by (cases w) (auto simp: lstrip_def)
      then show "strip (w @ collapse_ws r) = w @ rstrip (collapse_ws r)"
        using w by (simp add: strip_def rstrip_word_append)
    qed
    have "rstrip (collapse_ws r) = (if split r = [] then [] else '' '' @ join '' '' (split r))"
    proof (cases r)
      case Nil
      then show ?thesis by (simp add: rstrip_def)
    next
      case (Cons d ds)
      with r have d: "isspace d" by simp
      let ?v = "collapse_ws (dropWhile isspace ds)"
      have "rstrip ?v = strip ?v"
        using collapse_head [of ds] by (simp add: strip_def lstrip_id)
      also have "\<dots> = strip (collapse_ws r)"
        using d Cons by (simp add: strip_space_Cons)
      finally have rv: "rstrip ?v = join '' '' (split r)" using IH by simp
      have "rstrip (collapse_ws r) = (if rstrip ?v = [] then [] else CHR '' '' # rstrip ?v)"
        using d Cons by (simp add: rstrip_space_Cons)
      then show ?thesis
        using rv join_Nil_iff [OF split_words, of r] by simp
    qed
    with l sp show ?thesis by (simp add: join_Cons)
  qed
qed

lemma fold_replace_separators:
  "fold (\<lambda>ch t. replace ch (CHR '' '') t) separators t =
   map (\<lambda>c. if is_separator c then CHR '' '' else c) t"
  by (simp add: separators_def replace_def is_separator_def)

text \<open>
  Claim C7. For every stem, \<open>normalize_stem\<close> returns the lowercase form of the stem
  with each of the separators \<open>_ . - ( ) [ ]\<close> replaced by a space, the runs of
  whitespace collapsed to single spaces and the whitespace at both ends removed; and
  \<open>My_Movie.2020[1080p]\<close> is normalized to \<open>my movie 2020 1080p\<close>.
\<close>

theorem normalize_stem_spec:
  "normalize_stem x = normalize_spec x \<and>
   normalize_stem ''My_Movie.2020[1080p]'' = ''my movie 2020 1080p''"
proof
  show "normalize_stem x = normalize_spec x"
    by (simp add: normalize_stem_def normalize_spec_def fold_replace_separators
        strip_collapse strip_join_words split_words)
  show "normalize_stem ''My_Movie.2020[1080p]'' = ''my movie 2020 1080p''"
    by code_simp
qed


lemma lower_char_idem: "lower_char (lower_char c) = lower_char c"
  unfolding lower_char_def isupper_def Let_def by auto

lemma lower_char_space: "lower_char (CHR '' '') = CHR '' ''"
  by (simp add: lower_char_def isupper_def)

lemma space_not_separator: "\<not> is_separator (CHR '' '')"
  by (simp add: is_separator_def separators_def)

lemma set_join: "set (join sep ws) \<subseteq> set sep \<union> \<Union> (set ` set ws)"
  by (induction sep ws rule: join.induct) auto

lemma normalize_stem_chars:
  assumes "c \<in> set (normalize_stem x)"
  shows "lower_char c = c \<and> \<not> is_separator c"
proof -
  let ?T = "map (\<lambda>c. if is_separator c then CHR '' '' else c) (lower x)"
  have T: "lower_char d = d \<and> \<not> is_separator d" if "d \<in> set ?T" for d
    using that by (auto simp: lower_def lower_char_idem lower_char_space space_not_separator)
  have n: "normalize_stem x = join '' '' (split ?T)"
    by (simp add: normalize_stem_def fold_replace_separators strip_join_words split_words)
  from assms n set_join [of "'' ''" "split ?T"]
  consider "c = CHR '' ''" | w where "w \<in> set (split ?T)" "c \<in> set w"
    by auto
  then show ?thesis
  proof cases
    case 1
    then show ?thesis by (simp add: lower_char_space space_not_separator)
  next
    case 2
    then have "c \<in> set ?T" using set_split by blast
    then show ?thesis by (rule T)
  qed
qed

text \<open>
  Claim C8. The normalizer is idempotent: normalizing a normalized stem changes nothing.
\<close>

theorem normalize_stem_idempotent:
  "normalize_stem (normalize_stem x) = normalize_stem x"
proof -
  let ?T = "map (\<lambda>c. if is_separator c then CHR '' '' else c) (lower x)"
  let ?y = "normalize_stem x"
  have n: "?y = join '' '' (split ?T)"
    by (simp add: normalize_stem_def fold_replace_separators strip_join_words split_words)
  have "map (\<lambda>c. if is_separator c then CHR '' '' else c) (lower ?y) = ?y"
    unfolding lower_def map_map
    by (rule map_idI) (use normalize_stem_chars in auto)
  then have "normalize_stem ?y = strip (join '' '' (split ?y))"
    by (simp add: normalize_stem_def [of ?y] fold_replace_separators)
  also have "split ?y = split ?T"
    unfolding n by (rule split_join_words) (rule split_words)
  finally show ?thesis
    using n by (simp add: strip_join_words split_words)
qed


section \<open>Properties of the matcher\<close>

lemma Max_Cons_le:
  fixes f :: "'a \<Rightarrow> real"
  shows "\<forall>y \<in> set xs. f y \<le> f x \<Longrightarrow> Max (f ` set (x # xs)) = f x"
  by (intro Max_eqI) auto

lemma Max_Cons_gt:
  fixes f :: "'a \<Rightarrow> real"
  assumes "y \<in> set xs" "f x < f y"
  shows "Max (f ` set (x # xs)) = Max (f ` set xs)" "f x < Max (f ` set xs)"
proof -
  have "f y \<le> Max (f ` set xs)" using assms by simp
  with assms show lt: "f x < Max (f ` set xs)" by linarith
  have "f ` set xs \<noteq> {}" using assms by auto
  with lt show "Max (f ` set (x # xs)) = Max (f ` set xs)"
    by (simp add: max_def)
qed

lemma first_max_Cons_le:
  "\<forall>y \<in> set xs. f y \<le> f x \<Longrightarrow> first_max f (x # xs) = Some x"
  using Max_Cons_le [of xs f x] by (simp add: first_max_def)

lemma first_max_Cons_gt:
  "y \<in> set xs \<Longrightarrow> f x < f y \<Longrightarrow> first_max f (x # xs) = first_max f xs"
  using Max_Cons_gt [of y xs f x] by (simp add: first_max_def)

lemma match_loop_char:
  "match_loop ratio s best best_score xs =
     (if \<exists>x \<in> set xs. best_score < candidate_score ratio s x
      then (first_max (candidate_score ratio s) xs, Max (candidate_score ratio s ` set xs))
      else (best, best_score))"
proof (induction xs arbitrary: best best_score)
  case Nil
  show ?case by simp
next
  case (Cons m rest)
  let ?f = "candidate_score ratio s"
  show ?case
  proof (cases "best_score < ?f m")
    case True
    then have l: "match_loop ratio s best best_score (m # rest) =
        match_loop ratio s (Some m) (?f m) rest" by simp
    have c: "\<exists>x \<in> set (m # rest). best_score < ?f x" using True by simp
    show ?thesis
    proof (cases "\<exists>x \<in> set rest. ?f m < ?f x")
      case ex: True
      then obtain y where y: "y \<in> set rest" "?f m < ?f y" by blast
      show ?thesis
        unfolding l Cons.IH [of "Some m" "?f m"]
        using ex c first_max_Cons_gt [OF y] Max_Cons_gt(1) [OF y] by simp
    next
      case nex: False
      then have le: "\<forall>y \<in> set rest. ?f y \<le> ?f m" by (auto simp: not_less)
      show ?thesis
        unfolding l Cons.IH [of "Some m" "?f m"]
        using nex c first_max_Cons_le [OF le] Max_Cons_le [OF le] by simp
    qed
  next
    case False
    then have l: "match_loop ratio s best best_score (m # rest) =
        match_loop ratio s best best_score rest" by simp
    show ?thesis
    proof (cases "\<exists>x \<in> set rest. best_score < ?f x")
      case ex: True
      then obtain y where y: "y \<in> set rest" "best_score < ?f y" by blast
      with False have y': "?f m < ?f y" by simp
      have c: "\<exists>x \<in> set (m # rest). best_score < ?f x" using ex by simp
      show ?thesis
        unfolding l Cons.IH [of best best_score]
        using ex c first_max_Cons_gt [OF y(1) y'] Max_Cons_gt(1) [OF y(1) y'] by simp
    next
      case nex: False
      then have c: "\<not> (\<exists>x \<in> set (m # rest). best_score < ?f x)" using False by simp
      show ?thesis
        unfolding l Cons.IH [of best best_score]
        using nex c by simp
    qed
  qed
qed

lemma first_max_Some:
  "xs \<noteq> [] \<Longrightarrow> \<exists>m. first_max f xs = Some m \<and> m \<in> set xs \<and> f m = Max (f ` set xs)"
proof -
  assume "xs \<noteq> []"
  then have "Max (f ` set xs) \<in> f ` set xs" by (intro Max_in) auto
  then obtain m where m: "m \<in> set xs" "f m = Max (f ` set xs)" by auto
  then have "find (\<lambda>x. f x = Max (f ` set xs)) xs \<noteq> None"
    by (auto simp: find_None_iff)
  then obtain m' where m': "find (\<lambda>x. f x = Max (f ` set xs)) xs = Some m'" by auto
  then have "m' \<in> set xs \<and> f m' = Max (f ` set xs)"
    by (auto simp: find_Some_iff)
  with m' show ?thesis by (auto simp: first_max_def)
qed


lemma best_media_match_char:
  "best_media_match ratio for_sub media_files =
     (let f = candidate_score ratio (normalize_stem (stem for_sub)) in
      if media_files \<noteq> [] \<and> THRESHOLD \<le> Max (f ` set media_files)
      then first_max f media_files else None)"
proof -
  let ?s = "normalize_stem (stem for_sub)"
  let ?f = "candidate_score ratio ?s"
  show ?thesis
  proof (cases "\<exists>x \<in> set media_files. - 1 < ?f x")
    case True
    then have ne: "media_files \<noteq> []" by auto
    from first_max_Some [OF ne, of ?f] have "first_max ?f media_files \<noteq> None" by auto
    with True ne show ?thesis
      by (simp add: best_media_match_def match_loop_char Let_def)
  next
    case False
    have neg: "\<not> (media_files \<noteq> [] \<and> THRESHOLD \<le> Max (?f ` set media_files))"
    proof
      assume a: "media_files \<noteq> [] \<and> THRESHOLD \<le> Max (?f ` set media_files)"
      with first_max_Some [of media_files ?f] obtain m where
        "m \<in> set media_files" "?f m = Max (?f ` set media_files)" by auto
      with a have "m \<in> set media_files" "- 1 < ?f m" by (auto simp: THRESHOLD_def)
      with False show False by blast
    qed
    have "best_media_match ratio for_sub media_files = None"
      using False by (simp add: best_media_match_def match_loop_char Let_def)
    then show ?thesis
      unfolding Let_def if_not_P [OF neg] .
  qed
qed





lemma Max_ge_all:
  fixes f :: "'a \<Rightarrow> real"
  shows "x \<in> set xs \<Longrightarrow> f x \<le> Max (f ` set xs)"
  by simp

text \<open>
  Claim C10. On an empty list of candidates the matcher returns the no-match signal;
  it raises nothing.
\<close>

theorem best_media_match_empty: "best_media_match ratio for_sub [] = None"
  by (simp add: best_media_match_def)








section \<open>Properties of paths and of the batch run\<close>

lemma rfind_last_occurrence: "c \<notin> set ys \<Longrightarrow> rfind c (xs @ c # ys) = Some (length xs)"
proof (induction xs)
  case Nil
  have "rfind c ys = None" using Nil by (induction ys) (auto split: option.splits)
  then show ?case by simp
next
  case (Cons x xs)
  then show ?case by simp
qed

lemma rfind_Some_less: "rfind c xs = Some i \<Longrightarrow> i < length xs"
  by (induction xs arbitrary: i) (auto split: option.splits if_splits)

lemma stem_nonempty: "name p \<noteq> [] \<Longrightarrow> stem p \<noteq> []"
  by (auto simp: stem_def split: option.splits)

lemma suffix_nonempty_name: "suffix p \<noteq> [] \<Longrightarrow> name p \<noteq> []"
  by (auto simp: suffix_def split: option.splits)

lemma stem_suffix: "stem p @ suffix p = name p"
  by (auto simp: stem_def suffix_def split: option.splits)

lemma with_suffix_srt:
  assumes "name p \<noteq> []"
  shows "with_suffix p ''.srt'' = Inr (p\<lparr>name := stem p @ ''.srt''\<rparr>)"
proof (cases "suffix p = []")
  case True
  then have "stem p = name p" using stem_suffix [of p] by simp
  with True assms show ?thesis by (simp add: with_suffix_def)
next
  case False
  have "length (name p) - length (suffix p) = length (stem p)"
    using stem_suffix [of p] by (metis add_diff_cancel_right' length_append)
  moreover have "take (length (stem p)) (name p) = stem p"
    using stem_suffix [of p] by (metis append_eq_conv_conj)
  ultimately show ?thesis using False assms by (simp add: with_suffix_def Let_def)
qed

lemma renamed_parts:
  assumes "st \<noteq> []"
  shows "suffix (p\<lparr>name := st @ ''.srt''\<rparr>) = ''.srt''"
    and "stem (p\<lparr>name := st @ ''.srt''\<rparr>) = st"
proof -
  have r: "rfind (CHR ''.'') (st @ CHR ''.'' # ''srt'') = Some (length st)"
    by (rule rfind_last_occurrence) simp
  show "suffix (p\<lparr>name := st @ ''.srt''\<rparr>) = ''.srt''"
    using assms r by (simp add: suffix_def)
  show "stem (p\<lparr>name := st @ ''.srt''\<rparr>) = st"
    using assms r by (simp add: stem_def)
qed

lemma output_path_parts:
  assumes "name m \<noteq> []"
  shows "\<exists>out. with_suffix m ''.srt'' = Inr out \<and> out = m\<lparr>name := stem m @ ''.srt''\<rparr> \<and>
    parent out = parent m \<and> stem out = stem m \<and> suffix out = ''.srt''"
  using with_suffix_srt [OF assms] renamed_parts [OF stem_nonempty [OF assms], of m]
  by simp

lemma media_ext_nonempty: "lower (suffix p) \<in> MEDIA_EXTS \<Longrightarrow> name p \<noteq> []"
proof -
  assume "lower (suffix p) \<in> MEDIA_EXTS"
  then have "lower (suffix p) \<noteq> []" by (auto simp: MEDIA_EXTS_def)
  then have "suffix p \<noteq> []" by (auto simp: lower_def)
  then show ?thesis by (rule suffix_nonempty_name)
qed

lemma group_media_ok: "media_ok mbd \<Longrightarrow> media_ok (group_media mbd ps)"
proof (induction ps arbitrary: mbd)
  case Nil
  then show ?case by simp
next
  case (Cons p ps)
  show ?case
  proof (cases "lower (suffix p) \<in> MEDIA_EXTS")
    case True
    have "media_ok (mbd(parent p \<mapsto> (case mbd (parent p) of None \<Rightarrow> [] | Some l \<Rightarrow> l) @ [p]))"
      unfolding media_ok_def
    proof (intro allI impI ballI)
      fix d l q
      assume l: "(mbd(parent p \<mapsto> (case mbd (parent p) of None \<Rightarrow> [] | Some l \<Rightarrow> l) @ [p])) d = Some l"
        and q: "q \<in> set l"
      show "lower (suffix q) \<in> MEDIA_EXTS \<and> parent q = d"
      proof (cases "d = parent p")
        case d: True
        show ?thesis
        proof (cases "mbd (parent p)")
          case None
          with l q d True show ?thesis by auto
        next
          case (Some l0)
          with Cons.prems have "\<forall>p' \<in> set l0. lower (suffix p') \<in> MEDIA_EXTS \<and> parent p' = parent p"
            by (simp add: media_ok_def)
          with l q d True Some show ?thesis by auto
        qed
      next
        case False
        with l have "mbd d = Some l" by simp
        with Cons.prems q show ?thesis by (simp add: media_ok_def)
      qed
    qed
    from Cons.IH [OF this] True show ?thesis by (simp only: group_media.simps if_True)
  next
    case False
    with Cons show ?thesis by simp
  qed
qed

lemma media_ok_empty: "media_ok Map.empty"
  by (simp add: media_ok_def)

lemma best_media_match_in_set:
  "best_media_match ratio for_sub media_files = Some m \<Longrightarrow> m \<in> set media_files"
proof -
  let ?f = "candidate_score ratio (normalize_stem (stem for_sub))"
  assume "best_media_match ratio for_sub media_files = Some m"
  then have ne: "media_files \<noteq> []" and fm: "first_max ?f media_files = Some m"
    by (auto simp: best_media_match_char Let_def split: if_splits)
  from first_max_Some [OF ne, of ?f] fm show ?thesis by auto
qed

lemma process_sub_step:
  assumes ok: "media_ok mbd"
  shows "\<exists>st'. process_sub e OVERWRITE mbd st srt = Inr st' \<and>
           outcome_subs st' = outcome_subs st + {#srt#} \<and>
           (synced_ok st \<longrightarrow> synced_ok st')"
proof -
  define candidates where "candidates = (case mbd (parent srt) of None \<Rightarrow> [] | Some l \<Rightarrow> l)"
  show ?thesis
  proof (cases "candidates = []")
    case True
    then have "process_sub e OVERWRITE mbd st srt =
        Inr (st\<lparr>failed := failed st @ [(srt, No_media_in_folder)]\<rparr>)"
      by (simp add: process_sub_def candidates_def)
    then show ?thesis by (simp add: outcome_subs_def synced_ok_def)
  next
    case ne: False
    show ?thesis
    proof (cases "best_media_match (sequence_ratio e) srt candidates")
      case None
      with ne have "process_sub e OVERWRITE mbd st srt =
          Inr (st\<lparr>failed := failed st @ [(srt, No_good_match)]\<rparr>)"
        by (simp add: process_sub_def candidates_def)
      then show ?thesis by (simp add: outcome_subs_def synced_ok_def)
    next
      case (Some m)
      then have "m \<in> set candidates" by (rule best_media_match_in_set)
      with ne ok have m: "lower (suffix m) \<in> MEDIA_EXTS" "parent m = parent srt"
        by (auto simp: candidates_def media_ok_def split: option.splits)
      then have nm: "name m \<noteq> []" by (simp add: media_ext_nonempty)
      define out_srt where "out_srt = m\<lparr>name := stem m @ ''.srt''\<rparr>"
      have ws: "with_suffix m ''.srt'' = Inr out_srt"
        unfolding out_srt_def by (rule with_suffix_srt [OF nm])
      show ?thesis
      proof (cases "path_exists e (world st) out_srt \<and> \<not> OVERWRITE")
        case True
        with ne Some ws have "process_sub e OVERWRITE mbd st srt =
            Inr (st\<lparr>skipped := skipped st @ [(srt, Exists)]\<rparr>)"
          by (simp add: process_sub_def candidates_def)
        then show ?thesis by (simp add: outcome_subs_def synced_ok_def)
      next
        case False
        obtain code out err w' where
          r: "run e (ffsubsync_cmd m srt out_srt) (world st) = ((code, out, err), w')"
          by (metis prod_cases3 surj_pair)
        define st1 where
          "st1 = st\<lparr>world := w', invoked := invoked st @ [ffsubsync_cmd m srt out_srt]\<rparr>"
        show ?thesis
        proof (cases "code = 0")
          case True
          with False ne Some ws r have "process_sub e OVERWRITE mbd st srt =
              Inr (st1\<lparr>synced := synced st1 @ [(srt, m)]\<rparr>)"
            by (auto simp: process_sub_def candidates_def st1_def Let_def)
          moreover have "synced_ok st \<longrightarrow> synced_ok (st1\<lparr>synced := synced st1 @ [(srt, m)]\<rparr>)"
            using nm m by (auto simp: synced_ok_def st1_def out_srt_def)
          ultimately show ?thesis by (simp add: outcome_subs_def st1_def)
        next
          case nz: False
          with False ne Some ws r have "process_sub e OVERWRITE mbd st srt =
              Inr (st1\<lparr>failed := failed st1 @ [(srt, Ffsubsync_error code)]\<rparr>)"
            by (auto simp: process_sub_def candidates_def st1_def Let_def)
          moreover have "synced_ok st \<longrightarrow>
              synced_ok (st1\<lparr>failed := failed st1 @ [(srt, Ffsubsync_error code)]\<rparr>)"
            by (auto simp: synced_ok_def st1_def)
          ultimately show ?thesis by (simp add: outcome_subs_def st1_def)
        qed
      qed
    qed
  qed
qed

lemma process_subs_run:
  assumes ok: "media_ok mbd"
  shows "\<exists>st'. process_subs e OVERWRITE mbd st subs = Inr st' \<and>
           outcome_subs st' = outcome_subs st + mset subs \<and>
           (synced_ok st \<longrightarrow> synced_ok st')"
proof (induction subs arbitrary: st)
  case Nil
  show ?case by simp
next
  case (Cons srt rest)
  from process_sub_step [OF ok, of e OVERWRITE st srt] obtain st1 where
    1: "process_sub e OVERWRITE mbd st srt = Inr st1"
       "outcome_subs st1 = outcome_subs st + {#srt#}"
       "synced_ok st \<longrightarrow> synced_ok st1" by blast
  from Cons.IH [of st1] obtain st2 where
    2: "process_subs e OVERWRITE mbd st1 rest = Inr st2"
       "outcome_subs st2 = outcome_subs st1 + mset rest"
       "synced_ok st1 \<longrightarrow> synced_ok st2" by blast
  from 1 2 show ?case by simp
qed


lemma subsbatch_main_summary:
  assumes "subsbatch_main e RECURSIVE OVERWRITE folder w = Summary st"
  shows "\<exists>base. folder = Some base \<and> have_tool e ''ffsubsync'' \<and>
     discovered_subs (gather_files e RECURSIVE w base) \<noteq> [] \<and>
     outcome_subs st = mset (discovered_subs (gather_files e RECURSIVE w base)) \<and>
     synced_ok st"
proof -
  from assms obtain base where b: "folder = Some base" and h: "have_tool e ''ffsubsync''"
    by (auto simp: subsbatch_main_def split: if_splits option.splits)
  let ?all = "gather_files e RECURSIVE w base"
  let ?st0 = "\<lparr>synced = [], skipped = [], failed = [], world = w, invoked = []\<rparr>"
  from assms b h have ne: "discovered_subs ?all \<noteq> []"
    by (auto simp: subsbatch_main_def Let_def split: if_splits)
  have ok: "media_ok (group_media Map.empty ?all)"
    by (rule group_media_ok [OF media_ok_empty])
  from process_subs_run [OF ok, of e OVERWRITE ?st0 "discovered_subs ?all"] obtain st' where
    s: "process_subs e OVERWRITE (group_media Map.empty ?all) ?st0 (discovered_subs ?all) = Inr st'"
       "outcome_subs st' = outcome_subs ?st0 + mset (discovered_subs ?all)"
       "synced_ok ?st0 \<longrightarrow> synced_ok st'" by blast
  from assms b h ne s(1) have "st = st'"
    by (simp add: subsbatch_main_def Let_def)
  with s b h ne show ?thesis
    by (simp add: outcome_subs_def synced_ok_def)
qed


lemma with_suffix_Inr_name: "with_suffix p sfx = Inr out \<Longrightarrow> name p \<noteq> []"
  by (auto simp: with_suffix_def split: if_splits)

lemma run_cmd_trace: "run_cmd e cmd st = (res, st') \<Longrightarrow> snd st' = snd st @ [cmd]"
  by (auto simp: run_cmd_def split: prod.splits)

lemma align_with_ffsubsync_trace:
  "align_with_ffsubsync e media subs out_srt st = (r, st') \<Longrightarrow>
   snd st' = snd st @ [ffsubsync_cmd media subs out_srt]"
  by (auto simp: align_with_ffsubsync_def ffsubsync_cmd_def Let_def
      split: prod.splits if_splits dest: run_cmd_trace)

lemma aeneas_steps_trace:
  assumes "aeneas_steps e td media subs out_srt st = (Inr u, st')"
  shows "\<exists>wav text. aeneas_cmd e wav text out_srt \<in> set (snd st')"
  using assms
  by (auto simp: aeneas_steps_def Let_def
      split: prod.splits sum.splits if_splits dest!: run_cmd_trace) blast

lemma maybe_align_with_aeneas_trace:
  assumes "maybe_align_with_aeneas e media subs out_srt st = (Inr u, st')"
  shows "\<exists>wav text. aeneas_cmd e wav text out_srt \<in> set (snd st')"
proof -
  from assms obtain st1 where
    "aeneas_steps e (mkdtemp e (fst st)) media subs out_srt st = (Inr u, st1)"
    "snd st' = snd st1"
    by (auto simp: maybe_align_with_aeneas_def Let_def split: prod.splits)
  with aeneas_steps_trace [of e "mkdtemp e (fst st)" media subs out_srt st u st1]
  show ?thesis by simp
qed

lemma subsynch_main_done:
  assumes "subsynch_main e (Some media) (Some subs) w = Done_ffsubsync out_srt st \<or>
           subsynch_main e (Some media) (Some subs) w = Done_aeneas out_srt st"
  shows "with_suffix media ''.srt'' = Inr out_srt \<and>
    (subsynch_main e (Some media) (Some subs) w = Done_ffsubsync out_srt st \<longrightarrow>
       ffsubsync_cmd media subs out_srt \<in> set (snd st)) \<and>
    (subsynch_main e (Some media) (Some subs) w = Done_aeneas out_srt st \<longrightarrow>
       (\<exists>wav text. aeneas_cmd e wav text out_srt \<in> set (snd st)))"
proof -
  from assms obtain out where ws: "with_suffix media ''.srt'' = Inr out"
    by (cases "with_suffix media ''.srt''")
       (auto simp: subsynch_main_def pick_media_and_subs_def)
  have fb: "out = out_srt \<and> (\<exists>wav text. aeneas_cmd e wav text out_srt \<in> set (snd st))"
    if "aeneas_fallback e media subs out st0 = Done_aeneas out_srt st" for st0
    using that maybe_align_with_aeneas_trace [of e media subs out st0]
    by (auto simp: aeneas_fallback_def split: if_splits prod.splits sum.splits)
  have nf: "aeneas_fallback e media subs out st0 \<noteq> Done_ffsubsync out_srt st" for st0
    by (auto simp: aeneas_fallback_def split: if_splits prod.splits sum.splits)
  show ?thesis
  proof (cases "have_tool e ''ffsubsync''")
    case False
    with ws have m: "subsynch_main e (Some media) (Some subs) w =
        aeneas_fallback e media subs out (w, [])"
      by (simp add: subsynch_main_def pick_media_and_subs_def)
    with assms nf fb [of "(w, [])"] ws show ?thesis by auto
  next
    case True
    obtain r st1 where a: "align_with_ffsubsync e media subs out (w, []) = (r, st1)"
      by (cases "align_with_ffsubsync e media subs out (w, [])") auto
    show ?thesis
    proof (cases r)
      case (Inl err)
      with True ws a have m: "subsynch_main e (Some media) (Some subs) w =
          aeneas_fallback e media subs out st1"
        by (simp add: subsynch_main_def pick_media_and_subs_def)
      with assms nf fb [of st1] ws show ?thesis by auto
    next
      case (Inr u)
      with True ws a have m: "subsynch_main e (Some media) (Some subs) w =
          Done_ffsubsync out st1"
        by (simp add: subsynch_main_def pick_media_and_subs_def)
      from align_with_ffsubsync_trace [OF a] have "ffsubsync_cmd media subs out \<in> set (snd st1)"
        by simp
      with m assms ws show ?thesis by auto
    qed
  qed
qed

text \<open>
  Claim C1. For every successfully matched subtitle, in batch mode and in single-pair
  mode, the output path is the path of the matched media file with its extension
  replaced by \<open>.srt\<close>: the same directory and the same stem as the media file. It is
  computed from the media path alone; the name of the input subtitle does not occur in
  it.
\<close>

theorem output_named_after_media:
  "(\<forall>st. subsbatch_main e RECURSIVE OVERWRITE folder w = Summary st \<longrightarrow>
      (\<forall>(srt, m) \<in> set (synced st).
         \<exists>out_srt. with_suffix m ''.srt'' = Inr out_srt \<and>
           out_srt = m\<lparr>name := stem m @ ''.srt''\<rparr> \<and>
           parent out_srt = parent m \<and> stem out_srt = stem m \<and> suffix out_srt = ''.srt'' \<and>
           ffsubsync_cmd m srt out_srt \<in> set (invoked st))) \<and>
   (\<forall>out_srt st.
      subsynch_main e' (Some media) (Some subs) w' = Done_ffsubsync out_srt st \<or>
      subsynch_main e' (Some media) (Some subs) w' = Done_aeneas out_srt st \<longrightarrow>
        with_suffix media ''.srt'' = Inr out_srt \<and>
        out_srt = media\<lparr>name := stem media @ ''.srt''\<rparr> \<and>
        parent out_srt = parent media \<and> stem out_srt = stem media \<and>
        suffix out_srt = ''.srt'' \<and>
        (ffsubsync_cmd media subs out_srt \<in> set (snd st) \<or>
         (\<exists>wav text. aeneas_cmd e' wav text out_srt \<in> set (snd st))))"
proof (intro conjI allI impI)
  fix st
  assume "subsbatch_main e RECURSIVE OVERWRITE folder w = Summary st"
  from subsbatch_main_summary [OF this] have ok: "synced_ok st" by blast
  show "\<forall>(srt, m) \<in> set (synced st).
         \<exists>out_srt. with_suffix m ''.srt'' = Inr out_srt \<and>
           out_srt = m\<lparr>name := stem m @ ''.srt''\<rparr> \<and>
           parent out_srt = parent m \<and> stem out_srt = stem m \<and> suffix out_srt = ''.srt'' \<and>
           ffsubsync_cmd m srt out_srt \<in> set (invoked st)"
  proof (clarify)
    fix srt m
    assume "(srt, m) \<in> set (synced st)"
    with ok have nm: "name m \<noteq> []"
      and c: "ffsubsync_cmd m srt (m\<lparr>name := stem m @ ''.srt''\<rparr>) \<in> set (invoked st)"
      by (auto simp: synced_ok_def)
    from output_path_parts [OF nm] obtain out where
      o: "with_suffix m ''.srt'' = Inr out" "out = m\<lparr>name := stem m @ ''.srt''\<rparr>"
         "parent out = parent m" "stem out = stem m" "suffix out = ''.srt''"
      by blast
    from c o(2) have "ffsubsync_cmd m srt out \<in> set (invoked st)" by (simp only:)
    with o
    show "\<exists>out_srt. with_suffix m ''.srt'' = Inr out_srt \<and>
           out_srt = m\<lparr>name := stem m @ ''.srt''\<rparr> \<and>
           parent out_srt = parent m \<and> stem out_srt = stem m \<and> suffix out_srt = ''.srt'' \<and>
           ffsubsync_cmd m srt out_srt \<in> set (invoked st)"
      by blast
  qed
next
  fix out_srt st
  assume a: "subsynch_main e' (Some media) (Some subs) w' = Done_ffsubsync out_srt st \<or>
      subsynch_main e' (Some media) (Some subs) w' = Done_aeneas out_srt st"
  from subsynch_main_done [OF a] have ws: "with_suffix media ''.srt'' = Inr out_srt"
    by (rule conjunct1)
  from subsynch_main_done [OF a] a
  have tr: "ffsubsync_cmd media subs out_srt \<in> set (snd st) \<or>
         (\<exists>wav text. aeneas_cmd e' wav text out_srt \<in> set (snd st))"
    by blast
  from output_path_parts [OF with_suffix_Inr_name [OF ws]] obtain out where
    o: "with_suffix media ''.srt'' = Inr out" "out = media\<lparr>name := stem media @ ''.srt''\<rparr>"
       "parent out = parent media" "stem out = stem media" "suffix out = ''.srt''"
    by blast
  from o(1) ws have e: "out = out_srt" by (simp only: sum.inject)
  note p = o(2-5) [unfolded e]
  show "with_suffix media ''.srt'' = Inr out_srt" by (rule ws)
  show "out_srt = media\<lparr>name := stem media @ ''.srt''\<rparr>" by (rule p(1))
  show "parent out_srt = parent media" by (rule p(2))
  show "stem out_srt = stem media" by (rule p(3))
  show "suffix out_srt = ''.srt''" by (rule p(4))
  show "ffsubsync_cmd media subs out_srt \<in> set (snd st) \<or>
         (\<exists>wav text. aeneas_cmd e' wav text out_srt \<in> set (snd st))" by (rule tr)
qed


text \<open>
  Claim C6. In batch mode, when the output path derived from the matched media exists
  and overwriting is disabled, the subtitle is recorded as skipped, no command is run
  for it and the world, with the existing output file, is left as it was.
\<close>

theorem skip_existing_output:
  assumes "media_by_dir (parent srt) = Some candidates"
    and "best_media_match (sequence_ratio e) srt candidates = Some m"
    and "with_suffix m ''.srt'' = Inr out_srt"
    and "path_exists e (world st) out_srt"
    and "\<not> OVERWRITE"
  shows "\<exists>st'. process_sub e OVERWRITE media_by_dir st srt = Inr st' \<and>
    skipped st' = skipped st @ [(srt, Exists)] \<and>
    synced st' = synced st \<and> failed st' = failed st \<and>
    invoked st' = invoked st \<and> world st' = world st \<and>
    path_exists e (world st') out_srt"
proof -
  from assms(2) have "candidates \<noteq> []"
    by (auto simp: best_media_match_def)
  with assms have "process_sub e OVERWRITE media_by_dir st srt =
      Inr (st\<lparr>skipped := skipped st @ [(srt, Exists)]\<rparr>)"
    by (simp add: process_sub_def)
  with assms(4) show ?thesis by simp
qed


subsection \<open>The batch theorems on the sample library\<close>


theorem skip_existing_output_witness:
  "group_media Map.empty sample_world (parent (in_v ''clip.srt'')) =
     Some [in_v ''bad.avi'', in_v ''talk_1.mkv'', in_v ''clip.mp4''] \<and>
   best_media_match (sequence_ratio sample_env) (in_v ''clip.srt'')
     [in_v ''bad.avi'', in_v ''talk_1.mkv'', in_v ''clip.mp4''] = Some (in_v ''clip.mp4'') \<and>
   with_suffix (in_v ''clip.mp4'') ''.srt'' = Inr (in_v ''clip.srt'') \<and>
   path_exists sample_env sample_world (in_v ''clip.srt'') \<and>
   process_sub sample_env False (group_media Map.empty sample_world)
     \<lparr>synced = [], skipped = [], failed = [], world = sample_world, invoked = []\<rparr>
     (in_v ''clip.srt'') =
   Inr \<lparr>synced = [], skipped = [(in_v ''clip.srt'', Exists)], failed = [],
        world = sample_world, invoked = []\<rparr>"
proof -
  let ?st = "\<lparr>synced = [], skipped = [], failed = [], world = sample_world, invoked = []\<rparr>"
  have 1: "group_media Map.empty sample_world (parent (in_v ''clip.srt'')) =
     Some [in_v ''bad.avi'', in_v ''talk_1.mkv'', in_v ''clip.mp4'']" by code_simp
  have 2: "best_media_match (sequence_ratio sample_env) (in_v ''clip.srt'')
     [in_v ''bad.avi'', in_v ''talk_1.mkv'', in_v ''clip.mp4''] = Some (in_v ''clip.mp4'')"
    by code_simp
  have 3: "with_suffix (in_v ''clip.mp4'') ''.srt'' = Inr (in_v ''clip.srt'')" by code_simp
  have 4: "path_exists sample_env (world ?st) (in_v ''clip.srt'')" by code_simp
  have 5: "\<not> False" by simp
  from skip_existing_output [where media_by_dir = "group_media Map.empty sample_world"
      and srt = "in_v ''clip.srt''" and e = sample_env and st = ?st and OVERWRITE = False,
      OF 1 2 3 4 5]
  obtain st' where
    s: "process_sub sample_env False (group_media Map.empty sample_world) ?st (in_v ''clip.srt'') = Inr st'"
      "skipped st' = skipped ?st @ [(in_v ''clip.srt'', Exists)]"
      "synced st' = synced ?st" "failed st' = failed ?st"
      "invoked st' = invoked ?st" "world st' = world ?st"
    by blast
  then have "st' = \<lparr>synced = [], skipped = [(in_v ''clip.srt'', Exists)], failed = [],
        world = sample_world, invoked = []\<rparr>"
    by (cases st') simp
  with s(1) 1 2 3 4 show ?thesis by simp
qed

theorem output_named_after_media_witness:
  "(\<exists>st. subsbatch_main sample_env True False (Some sample_base) sample_world = Summary st \<and>
      (in_v ''Talk-1.srt'', in_v ''talk_1.mkv'') \<in> set (synced st) \<and>
      ffsubsync_cmd (in_v ''talk_1.mkv'') (in_v ''Talk-1.srt'') (in_v ''talk_1.srt'')
        \<in> set (invoked st)) \<and>
   (\<exists>st. subsynch_main sample_env (Some (in_v ''talk_1.mkv'')) (Some (in_v ''Talk-1.srt''))
       sample_world = Done_ffsubsync (in_v ''talk_1.srt'') st) \<and>
   with_suffix (in_v ''talk_1.mkv'') ''.srt'' = Inr (in_v ''talk_1.srt'') \<and>
   stem (in_v ''talk_1.srt'') = stem (in_v ''talk_1.mkv'') \<and>
   suffix (in_v ''talk_1.srt'') = ''.srt''"
proof -
  let ?mkv = "in_v ''talk_1.mkv''" and ?srt = "in_v ''Talk-1.srt''"
  let ?S = "\<lparr>synced = [(in_v ''Talk-1.srt'', in_v ''talk_1.mkv'')],
       skipped = [(in_v ''clip.srt'', Exists)],
       failed = [(in_v ''Bad.srt'', Ffsubsync_error 2),
                 (in_v ''other.srt'', No_good_match),
                 (\<lparr>parent = [''lib'', ''x''], name = ''lone.srt''\<rparr>, No_media_in_folder)],
       world = sample_world,
       invoked = [ffsubsync_cmd (in_v ''bad.avi'') (in_v ''Bad.srt'') (in_v ''bad.srt''),
                  ffsubsync_cmd (in_v ''talk_1.mkv'') (in_v ''Talk-1.srt'') (in_v ''talk_1.srt'')]\<rparr>"
  have m: "subsbatch_main sample_env True False (Some sample_base) sample_world = Summary ?S"
    by code_simp
  have n: "?mkv\<lparr>name := stem ?mkv @ ''.srt''\<rparr> = in_v ''talk_1.srt''" by code_simp
  obtain st where s: "subsynch_main sample_env (Some ?mkv) (Some ?srt) sample_world =
      Done_ffsubsync (in_v ''talk_1.srt'') st"
  proof -
    have "subsynch_main sample_env (Some ?mkv) (Some ?srt) sample_world =
      Done_ffsubsync (in_v ''talk_1.srt'') (sample_world, [ffsubsync_cmd ?mkv ?srt (in_v ''talk_1.srt'')])"
      by code_simp
    then show ?thesis by (rule that)
  qed
  note t = output_named_after_media [of sample_env True False "Some sample_base" sample_world
      sample_env ?mkv ?srt sample_world]
  from t m have b: "\<forall>(srt, m) \<in> set (synced ?S).
         \<exists>out_srt. with_suffix m ''.srt'' = Inr out_srt \<and>
           out_srt = m\<lparr>name := stem m @ ''.srt''\<rparr> \<and>
           parent out_srt = parent m \<and> stem out_srt = stem m \<and> suffix out_srt = ''.srt'' \<and>
           ffsubsync_cmd m srt out_srt \<in> set (invoked ?S)"
    by blast
  then have b': "with_suffix ?mkv ''.srt'' = Inr (in_v ''talk_1.srt'') \<and>
      ffsubsync_cmd ?mkv ?srt (in_v ''talk_1.srt'') \<in> set (invoked ?S)"
    using n by simp
  from t s have c: "stem (in_v ''talk_1.srt'') = stem ?mkv \<and> suffix (in_v ''talk_1.srt'') = ''.srt''"
    by blast
  from m b' have "\<exists>st. subsbatch_main sample_env True False (Some sample_base) sample_world = Summary st \<and>
      (?srt, ?mkv) \<in> set (synced st) \<and>
      ffsubsync_cmd ?mkv ?srt (in_v ''talk_1.srt'') \<in> set (invoked st)"
    by simp
  with s b' c show ?thesis by blast
qed


section \<open>Properties of the stripped text\<close>


























end
